theory Spec2Isabelle
  imports Complex_Main
begin

section \<open>Exceptions and values\<close>

text \<open>
  The module under study is \<^verbatim>\<open>canmonitor/source_handler.py\<close>. Every exception that one of
  its methods can let escape is a constructor of \<open>exn\<close>; a call that may raise returns
  \<open>exn + 'a\<close> with \<open>Inl\<close> for the raised exception. \<open>InvalidFrame\<close> is the module's own
  exception class and carries its message. \<open>BinasciiError\<close> is \<^verbatim>\<open>binascii.Error\<close>, which
  Python declares as a subclass of \<^verbatim>\<open>ValueError\<close>; \<open>ValueError\<close> carries the message of the
  exception, because one handler of the module formats it into its own message.
\<close>

datatype exn =
    InvalidFrame string
  | IndexError
  | ValueError string
  | BinasciiError string
  | EOFError
  | AttributeError
  | ZeroDivisionError

text \<open>\<^verbatim>\<open>isinstance(e, ValueError)\<close>, as an \<^verbatim>\<open>except ValueError\<close> clause tests it.\<close>

fun is_ValueError :: "exn \<Rightarrow> bool" where
  "is_ValueError (ValueError m) = True"
| "is_ValueError (BinasciiError m) = True"
| "is_ValueError e = False"

fun is_IndexError :: "exn \<Rightarrow> bool" where
  "is_IndexError IndexError = True"
| "is_IndexError e = False"

fun is_InvalidFrame :: "exn \<Rightarrow> bool" where
  "is_InvalidFrame (InvalidFrame m) = True"
| "is_InvalidFrame e = False"

text \<open>\<^verbatim>\<open>str(e)\<close> for the exceptions that carry a message.\<close>

fun exn_str :: "exn \<Rightarrow> string" where
  "exn_str (InvalidFrame m) = m"
| "exn_str (ValueError m) = m"
| "exn_str (BinasciiError m) = m"
| "exn_str e = []"

text \<open>
  A \<^verbatim>\<open>bytes\<close> object is a list of 8-bit characters. The text lines of the capture file are
  \<^verbatim>\<open>str\<close> objects; they are lists of characters too, which restricts the model to code points
  below 256 (the only place where the file may hold others is the interface name, which the
  pattern skips with \<^verbatim>\<open>.*\<close>). A decoded message is the tuple \<^verbatim>\<open>(id, data)\<close>.
\<close>

type_synonym bytes = string
type_synonym frame = "int \<times> bytes"

section \<open>Characters\<close>

definition is_digit :: "char \<Rightarrow> bool" where
  "is_digit c \<longleftrightarrow> 48 \<le> (of_char c :: nat) \<and> (of_char c :: nat) \<le> 57"

definition digit_val :: "char \<Rightarrow> nat" where
  "digit_val c = of_char c - 48"

text \<open>The value of a hexadecimal digit of either case, as \<^verbatim>\<open>unhexlify\<close> and \<^verbatim>\<open>fromhex\<close> read it.\<close>

definition hex_val :: "char \<Rightarrow> nat option" where
  "hex_val c =
     (let n = (of_char c :: nat) in
      if 48 \<le> n \<and> n \<le> 57 then Some (n - 48)
      else if 65 \<le> n \<and> n \<le> 70 then Some (n - 55)
      else if 97 \<le> n \<and> n \<le> 102 then Some (n - 87)
      else None)"

definition is_hex :: "char \<Rightarrow> bool" where
  "is_hex c \<longleftrightarrow> hex_val c \<noteq> None"

text \<open>The character class \<^verbatim>\<open>[0-9A-F]\<close> of the capture pattern: upper case only.\<close>

definition is_HEX :: "char \<Rightarrow> bool" where
  "is_HEX c \<longleftrightarrow> (48 \<le> (of_char c :: nat) \<and> (of_char c :: nat) \<le> 57)
     \<or> (65 \<le> (of_char c :: nat) \<and> (of_char c :: nat) \<le> 70)"

text \<open>ASCII whitespace: space, tab, line feed, vertical tab, form feed, carriage return.\<close>

definition py_isspace :: "char \<Rightarrow> bool" where
  "py_isspace c \<longleftrightarrow> c = CHR '' '' \<or> (9 \<le> (of_char c :: nat) \<and> (of_char c :: nat) \<le> 13)"

definition the_byte :: "nat \<Rightarrow> nat \<Rightarrow> char" where
  "the_byte h l = char_of (16 * h + l)"

section \<open>Library functions of Python that the module calls\<close>

text \<open>\<^verbatim>\<open>s.split(sep, maxsplit=n)\<close> for a separator of one byte: at most \<open>n\<close> cuts, from the left.\<close>

fun split_max :: "char \<Rightarrow> nat \<Rightarrow> string \<Rightarrow> string list" where
  "split_max sep 0 s = [s]"
| "split_max sep (Suc n) s =
     (if sep \<in> set s
      then takeWhile (\<lambda>c. c \<noteq> sep) s # split_max sep n (tl (dropWhile (\<lambda>c. c \<noteq> sep) s))
      else [s])"

text \<open>\<^verbatim>\<open>xs[i]\<close> for an index that is not negative.\<close>

definition getitem :: "'a list \<Rightarrow> nat \<Rightarrow> exn + 'a" where
  "getitem xs i = (if i < length xs then Inr (xs ! i) else Inl IndexError)"

text \<open>The value of a string of decimal digits.\<close>

definition dec_val :: "string \<Rightarrow> nat" where
  "dec_val ds = foldl (\<lambda>a c. 10 * a + digit_val c) 0 ds"

fun double_underscore :: "string \<Rightarrow> bool" where
  "double_underscore (a # b # r) = ((a = CHR ''_'' \<and> b = CHR ''_'') \<or> double_underscore (b # r))"
| "double_underscore r = False"

text \<open>
  \<^verbatim>\<open>int(b)\<close> for a \<^verbatim>\<open>bytes\<close> object, base 10: whitespace around the literal is skipped, one
  sign is allowed, then come digits, where single underscores may stand between two digits;
  anything else raises \<^verbatim>\<open>ValueError\<close>. Python's integers are unbounded, and so is \<open>int\<close>. (An
  interpreter may be configured to refuse literals of more than a given number of digits,
  4300 by default in recent versions; the module does not configure it and the model has no
  such limit.)
\<close>

definition invalid_literal :: "string" where
  "invalid_literal = ''invalid literal for int() with base 10''"

definition int_bytes :: "bytes \<Rightarrow> exn + int" where
  "int_bytes s =
     (let s1 = dropWhile py_isspace s;
          signed = (s1 \<noteq> [] \<and> (hd s1 = CHR ''+'' \<or> hd s1 = CHR ''-''));
          neg = (s1 \<noteq> [] \<and> hd s1 = CHR ''-'');
          s2 = (if signed then tl s1 else s1);
          body = takeWhile (\<lambda>c. is_digit c \<or> c = CHR ''_'') s2;
          rest = dropWhile (\<lambda>c. is_digit c \<or> c = CHR ''_'') s2
      in if body = [] \<or> hd body = CHR ''_'' \<or> last body = CHR ''_'' \<or> double_underscore body
            \<or> \<not> list_all py_isspace rest
         then Inl (ValueError invalid_literal)
         else Inr ((if neg then - 1 else 1) * int (dec_val (filter is_digit body))))"

text \<open>
  \<^verbatim>\<open>binascii.unhexlify(b)\<close>: the bytes of an even number of hexadecimal digits of either
  case; no whitespace is allowed. The length is tested first.
\<close>

fun unhex_pairs :: "string \<Rightarrow> bytes option" where
  "unhex_pairs [] = Some []"
| "unhex_pairs [a] = None"
| "unhex_pairs (a # b # r) =
     (case (hex_val a, hex_val b) of
        (Some h, Some l) \<Rightarrow> map_option (\<lambda>d. the_byte h l # d) (unhex_pairs r)
      | _ \<Rightarrow> None)"

definition unhexlify :: "bytes \<Rightarrow> exn + bytes" where
  "unhexlify s =
     (if odd (length s) then Inl (BinasciiError ''Odd-length string'')
      else case unhex_pairs s of
             None \<Rightarrow> Inl (BinasciiError ''Non-hexadecimal digit found'')
           | Some d \<Rightarrow> Inr d)"

text \<open>
  \<^verbatim>\<open>repr(b)\<close> of a \<^verbatim>\<open>bytes\<close> object, which is also what \<^verbatim>\<open>"{}".format(b)\<close> inserts: the
  literal that denotes \<open>b\<close>, in single quotes unless \<open>b\<close> holds a single quote and no double
  quote.
\<close>

definition hex_digit_lower :: "nat \<Rightarrow> char" where
  "hex_digit_lower n = (if n < 10 then char_of (48 + n) else char_of (87 + n))"

definition repr_quote :: "bytes \<Rightarrow> char" where
  "repr_quote s = (if CHR 0x27 \<in> set s \<and> CHR 0x22 \<notin> set s then CHR 0x22 else CHR 0x27)"

definition repr_byte :: "char \<Rightarrow> char \<Rightarrow> string" where
  "repr_byte q c =
     (if c = q \<or> c = CHR 0x5C then [CHR 0x5C, c]
      else if c = CHR 0x09 then [CHR 0x5C, CHR ''t'']
      else if c = CHR 0x0A then [CHR 0x5C, CHR ''n'']
      else if c = CHR 0x0D then [CHR 0x5C, CHR ''r'']
      else if (of_char c :: nat) < 32 \<or> 127 \<le> (of_char c :: nat)
        then [CHR 0x5C, CHR ''x'', hex_digit_lower ((of_char c :: nat) div 16),
              hex_digit_lower ((of_char c :: nat) mod 16)]
      else [c])"

definition bytes_repr :: "bytes \<Rightarrow> string" where
  "bytes_repr s =
     CHR ''b'' # repr_quote s # concat (map (repr_byte (repr_quote s)) s) @ [repr_quote s]"

section \<open>The serial source\<close>

text \<open>
  \<^verbatim>\<open>SerialHandler._parse(line)\<close>, a static method. The three conversions run inside one
  \<^verbatim>\<open>try\<close> whose handler turns \<^verbatim>\<open>IndexError\<close> and \<^verbatim>\<open>ValueError\<close> into \<^verbatim>\<open>InvalidFrame\<close>;
  \<open>parse_fields\<close> is the body of the \<^verbatim>\<open>try\<close>. A slice \<^verbatim>\<open>t[3:]\<close> never raises: it is \<open>drop 3\<close>.
\<close>

definition parse_fields :: "bytes list \<Rightarrow> exn + (int \<times> int \<times> bytes)" where
  "parse_fields frame =
     (case getitem frame 1 of Inl e \<Rightarrow> Inl e | Inr t1 \<Rightarrow>
      case int_bytes (drop 3 t1) of Inl e \<Rightarrow> Inl e | Inr frame_id \<Rightarrow>
      case getitem frame 2 of Inl e \<Rightarrow> Inl e | Inr t2 \<Rightarrow>
      case int_bytes (drop 4 t2) of Inl e \<Rightarrow> Inl e | Inr frame_length \<Rightarrow>
      case getitem frame 3 of Inl e \<Rightarrow> Inl e | Inr t3 \<Rightarrow>
      case unhexlify (filter (\<lambda>c. c \<noteq> CHR '':'') t3) of Inl e \<Rightarrow> Inl e | Inr data \<Rightarrow>
      Inr (frame_id, frame_length, data))"

definition SerialHandler_parse :: "bytes \<Rightarrow> exn + frame" where
  "SerialHandler_parse line =
     (case parse_fields (split_max CHR '':'' 3 line) of
        Inl exc \<Rightarrow>
          if is_IndexError exc \<or> is_ValueError exc
          then Inl (InvalidFrame (''Invalid frame '' @ bytes_repr line))
          else Inl exc
      | Inr (frame_id, frame_length, data) \<Rightarrow>
          if int (length data) \<noteq> frame_length
          then Inl (InvalidFrame (''Wrong frame length or invalid data: '' @ bytes_repr line))
          else Inr (frame_id, data))"


text \<open>
  \<^verbatim>\<open>SerialHandler\<close> itself. The attribute \<open>serial_device\<close> is \<open>None\<close> until \<^verbatim>\<open>open()\<close>; an open
  device (opened with \<^verbatim>\<open>timeout=0\<close>) is modelled by the results its next calls of
  \<^verbatim>\<open>readline()\<close> will give, in order. A device that has nothing more to give answers
  \<^verbatim>\<open>b''\<close> for ever, on which the loop of \<^verbatim>\<open>_read_until_newline\<close> never ends: that is the
  result \<open>None\<close> of \<open>read_loop\<close>.
\<close>

record serial_handler =
  device_name :: string
  baudrate :: nat
  serial_device :: "bytes list option"

definition SerialHandler_init :: "string \<Rightarrow> nat \<Rightarrow> serial_handler" where
  "SerialHandler_init name rate = \<lparr>device_name = name, baudrate = rate, serial_device = None\<rparr>"

definition ends_with_newline :: "bytes \<Rightarrow> bool" where
  "ends_with_newline line \<longleftrightarrow> line \<noteq> [] \<and> last line = CHR 0x0A"

fun read_loop :: "bytes \<Rightarrow> bytes list \<Rightarrow> (bytes \<times> bytes list) option" where
  "read_loop line [] = (if ends_with_newline line then Some (line, []) else None)"
| "read_loop line (c # cs) =
     (if ends_with_newline line then Some (line, c # cs) else read_loop (line @ c) cs)"

text \<open>\<^verbatim>\<open>b.strip()\<close>: ASCII whitespace is removed at both ends.\<close>

definition strip_with :: "(char \<Rightarrow> bool) \<Rightarrow> string \<Rightarrow> string" where
  "strip_with P s = rev (dropWhile P (rev (dropWhile P s)))"

definition SerialHandler_read_until_newline :: "bytes list \<Rightarrow> (bytes \<times> bytes list) option" where
  "SerialHandler_read_until_newline dev =
     (case dev of
        [] \<Rightarrow> None
      | c # cs \<Rightarrow> map_option (\<lambda>(line, rest). (strip_with py_isspace line, rest)) (read_loop c cs))"

text \<open>
  \<^verbatim>\<open>SerialHandler.get_message()\<close>: \<open>None\<close> when the call never returns, otherwise the outcome
  and the handler after the call.
\<close>

definition SerialHandler_get_message :: "serial_handler \<Rightarrow> ((exn + frame) \<times> serial_handler) option" where
  "SerialHandler_get_message h =
     (case serial_device h of
        None \<Rightarrow> Some (Inl AttributeError, h)
      | Some dev \<Rightarrow>
          map_option (\<lambda>(line, rest). (SerialHandler_parse line, h\<lparr>serial_device := Some rest\<rparr>))
            (SerialHandler_read_until_newline dev))"

section \<open>The replay source\<close>

subsection \<open>The pattern\<close>

text \<open>
  \<^verbatim>\<open>MSG_RE = r"\(([.0-9]+)\).* ([0-9A-F]+)\#([0-9A-F]*)"\<close>. The pattern is a sequence of
  literal characters and of greedy repetitions of a character class, three of them inside a
  capturing group. \<open>rmatch\<close> is \<^verbatim>\<open>re.match\<close> for such patterns: it matches at the beginning of
  the string and not necessarily up to its end, a repetition first takes as many characters
  as it can and gives them back one at a time while the rest of the pattern fails, and the
  result is the list of the captured groups.
\<close>

datatype item = Lit char | Rep bool "char \<Rightarrow> bool" nat

fun first_some :: "'a option list \<Rightarrow> 'a option" where
  "first_some [] = None"
| "first_some (Some x # r) = Some x"
| "first_some (None # r) = first_some r"

fun rmatch :: "item list \<Rightarrow> string \<Rightarrow> string list option" where
  "rmatch [] s = Some []"
| "rmatch (Lit c # p) s =
     (case s of [] \<Rightarrow> None | x # r \<Rightarrow> if x = c then rmatch p r else None)"
| "rmatch (Rep cap cls mn # p) s =
     first_some
       (map (\<lambda>k. map_option (\<lambda>g. if cap then take k s # g else g) (rmatch p (drop k s)))
            (rev [mn ..< Suc (length (takeWhile cls s))]))"

definition is_ts :: "char \<Rightarrow> bool" where
  "is_ts c \<longleftrightarrow> c = CHR ''.'' \<or> is_digit c"

definition MSG_RE :: "item list" where
  "MSG_RE =
     [Lit CHR ''('', Rep True is_ts 1, Lit CHR '')'',
      Rep False (\<lambda>c. c \<noteq> CHR 0x0A) 0, Lit CHR '' '',
      Rep True is_HEX 1, Lit CHR ''#'', Rep True is_HEX 0]"

subsection \<open>Conversions\<close>

text \<open>
  \<^verbatim>\<open>float(s)\<close> on the strings that the first group of the pattern can hold, which are made
  of dots and digits: the conversion succeeds when \<open>s\<close> is digits, one optional dot, digits,
  with a digit somewhere. A Python float is modelled by the real number that the literal
  denotes: rounding to a double and overflow to infinity are left out. Strings with other
  characters never reach the call (lemma \<open>rmatch_MSG_RE_groups\<close>); the model answers
  \<^verbatim>\<open>ValueError\<close> on them, which is not what Python does on all of them.
\<close>

definition float_str :: "string \<Rightarrow> exn + real" where
  "float_str s =
     (let ip = takeWhile is_digit s;
          r = dropWhile is_digit s;
          dot = (r \<noteq> [] \<and> hd r = CHR ''.'');
          fp = (if dot then takeWhile is_digit (tl r) else []);
          r' = (if dot then dropWhile is_digit (tl r) else r)
      in if r' \<noteq> [] \<or> (ip = [] \<and> fp = [])
         then Inl (ValueError (''could not convert string to float: '' @ [CHR 0x27] @ s @ [CHR 0x27]))
         else Inr (real (dec_val (ip @ fp)) / 10 ^ length fp))"

text \<open>
  \<^verbatim>\<open>int(s, 16)\<close> on the strings that the second group can hold, which are made of
  hexadecimal digits; as for \<open>float_str\<close>, no other string reaches the call.
\<close>

definition hex_value :: "string \<Rightarrow> nat" where
  "hex_value s = foldl (\<lambda>a c. 16 * a + the (hex_val c)) 0 s"

definition int_base16 :: "string \<Rightarrow> exn + int" where
  "int_base16 s =
     (if s \<noteq> [] \<and> list_all is_hex s then Inr (int (hex_value s))
      else Inl (ValueError ''invalid literal for int() with base 16''))"

text \<open>The decimal digits of a natural number, for the messages that print one.\<close>

fun dec_str :: "nat \<Rightarrow> string" where
  "dec_str n = (if n < 10 then [char_of (48 + n)] else dec_str (n div 10) @ [char_of (48 + n mod 10)])"

text \<open>
  \<^verbatim>\<open>bytes.fromhex(s)\<close>: pairs of hexadecimal digits, with ASCII whitespace skipped between
  the pairs. The error names the position of the character that is not a digit, or the
  length of the string when it ends inside a pair.
\<close>

fun fromhex_at :: "nat \<Rightarrow> string \<Rightarrow> nat + bytes" where
  "fromhex_at i [] = Inr []"
| "fromhex_at i [a] = (if py_isspace a then Inr [] else if is_hex a then Inl (Suc i) else Inl i)"
| "fromhex_at i (a # b # r) =
     (if py_isspace a then fromhex_at (Suc i) (b # r)
      else case hex_val a of
             None \<Rightarrow> Inl i
           | Some h \<Rightarrow>
               (case hex_val b of
                  None \<Rightarrow> Inl (Suc i)
                | Some l \<Rightarrow>
                    (case fromhex_at (Suc (Suc i)) r of
                       Inl e \<Rightarrow> Inl e
                     | Inr d \<Rightarrow> Inr (the_byte h l # d))))"

definition fromhex :: "string \<Rightarrow> exn + bytes" where
  "fromhex s =
     (case fromhex_at 0 s of
        Inl i \<Rightarrow> Inl (ValueError (''non-hexadecimal number found in fromhex() arg at position '' @ dec_str i))
      | Inr d \<Rightarrow> Inr d)"

subsection \<open>The handler\<close>

text \<open>
  A text file opened for reading is the text that is still to be read and a flag that tells
  whether it has been closed. The handler has the attributes of \<^verbatim>\<open>CandumpHandler\<close>; \<open>slept\<close>
  is not an attribute: it records the world outside, each duration handed to
  \<^verbatim>\<open>time.sleep\<close> by a call that returned, oldest first.
\<close>

record text_file =
  closed :: bool
  pending :: string

record candump_handler =
  file_path :: string
  file_object :: "text_file option"
  speed_scale :: real
  clock :: real
  slept :: "real list"

text \<open>\<^verbatim>\<open>__init__\<close>: a speed that is zero (falsy) or negative is replaced by 1.\<close>

definition CandumpHandler_init :: "string \<Rightarrow> real \<Rightarrow> candump_handler" where
  "CandumpHandler_init path scale =
     \<lparr>file_path = path, file_object = None,
      speed_scale = (if scale = 0 \<or> scale \<le> 0 then 1 else scale),
      clock = 0, slept = []\<rparr>"

text \<open>\<^verbatim>\<open>open()\<close>, given the decoded text of the file at \<open>file_path\<close>.\<close>

definition CandumpHandler_open :: "string \<Rightarrow> candump_handler \<Rightarrow> candump_handler" where
  "CandumpHandler_open content h = h\<lparr>file_object := Some \<lparr>closed = False, pending = content\<rparr>\<rparr>"

definition CandumpHandler_close :: "candump_handler \<Rightarrow> candump_handler" where
  "CandumpHandler_close h =
     (case file_object h of None \<Rightarrow> h | Some f \<Rightarrow> h\<lparr>file_object := Some (f\<lparr>closed := True\<rparr>)\<rparr>)"

text \<open>\<^verbatim>\<open>time.sleep(d)\<close> raises \<^verbatim>\<open>ValueError\<close> when \<open>d\<close> is negative, and otherwise waits.\<close>

definition sleep :: "real \<Rightarrow> candump_handler \<Rightarrow> exn + candump_handler" where
  "sleep d h =
     (if d < 0 then Inl (ValueError ''sleep length must be non-negative'')
      else Inr (h\<lparr>slept := slept h @ [d]\<rparr>))"

definition float_div :: "real \<Rightarrow> real \<Rightarrow> exn + real" where
  "float_div a b = (if b = 0 then Inl ZeroDivisionError else Inr (a / b))"

definition newline :: char where
  "newline = CHR 0x0A"

definition wrong_format :: "string \<Rightarrow> string" where
  "wrong_format line = ''Wrong format: '' @ [CHR 0x27] @ line @ [CHR 0x27]"

definition cant_decode :: "string \<Rightarrow> string \<Rightarrow> string" where
  "cant_decode line err =
     ''Can'' @ [CHR 0x27] @ ''t decode message '' @ [CHR 0x27] @ line @ [CHR 0x27] @ '': ''
       @ [CHR 0x27] @ err @ [CHR 0x27]"

text \<open>
  \<^verbatim>\<open>CandumpHandler._parse_from_candump(line)\<close>: the outcome and the handler after the call.
  The statements run in the order of the source: the match, the conversion of the time
  stamp, the sleep, the assignment to \<open>clock\<close>, the conversion of the identifier, and only
  then the \<^verbatim>\<open>try\<close> around \<^verbatim>\<open>bytes.fromhex\<close>, the one place where an exception is caught.
\<close>

definition CandumpHandler_parse_from_candump ::
    "candump_handler \<Rightarrow> string \<Rightarrow> (exn + frame) \<times> candump_handler" where
  "CandumpHandler_parse_from_candump h line0 =
     (let line = strip_with (\<lambda>c. c = newline) line0 in
      case rmatch MSG_RE line of
        None \<Rightarrow> (Inl (InvalidFrame (wrong_format line)), h)
      | Some groups \<Rightarrow>
          (let abstime = groups ! 0; hex_can_id = groups ! 1; hex_can_data = groups ! 2 in
           case float_str abstime of
             Inl e \<Rightarrow> (Inl e, h)
           | Inr t \<Rightarrow>
               (case float_div (t - clock h) (speed_scale h) of
                  Inl e \<Rightarrow> (Inl e, h)
                | Inr d \<Rightarrow>
                    (case sleep d h of
                       Inl e \<Rightarrow> (Inl e, h)
                     | Inr h1 \<Rightarrow>
                         (let h2 = h1\<lparr>clock := t\<rparr> in
                          case int_base16 hex_can_id of
                            Inl e \<Rightarrow> (Inl e, h2)
                          | Inr can_id \<Rightarrow>
                              (case fromhex hex_can_data of
                                 Inl err \<Rightarrow>
                                   if is_ValueError err
                                   then (Inl (InvalidFrame (cant_decode line (exn_str err))), h2)
                                   else (Inl err, h2)
                               | Inr can_data \<Rightarrow> (Inr (can_id, can_data), h2)))))))"

text \<open>\<^verbatim>\<open>f.readline()\<close>: the text up to the first line feed, with it, or all the text left.\<close>

definition readline :: "string \<Rightarrow> string \<times> string" where
  "readline s =
     (case dropWhile (\<lambda>c. c \<noteq> newline) s of
        [] \<Rightarrow> (s, [])
      | c # r \<Rightarrow> (takeWhile (\<lambda>c. c \<noteq> newline) s @ [newline], r))"

definition CandumpHandler_get_message :: "candump_handler \<Rightarrow> (exn + frame) \<times> candump_handler" where
  "CandumpHandler_get_message h =
     (case file_object h of
        None \<Rightarrow> (Inl AttributeError, h)
      | Some f \<Rightarrow>
          if closed f then (Inl (ValueError ''I/O operation on closed file.''), h)
          else (case readline (pending f) of
                  (line, rest) \<Rightarrow>
                    (let h1 = h\<lparr>file_object := Some (f\<lparr>pending := rest\<rparr>)\<rparr> in
                     if line = [] then (Inl EOFError, h1)
                     else CandumpHandler_parse_from_candump h1 line)))"


section \<open>The shapes of lines that the statements below speak about\<close>

text \<open>
  A byte of payload is written as a pair of hexadecimal digits; \<open>pair_byte\<close> is the byte that
  a pair denotes. \<open>join_colon\<close> is \<^verbatim>\<open>b':'.join\<close>.
\<close>

definition pair_str :: "char \<times> char \<Rightarrow> string" where
  "pair_str p = [fst p, snd p]"

definition pair_byte :: "char \<times> char \<Rightarrow> char" where
  "pair_byte p = the_byte (the (hex_val (fst p))) (the (hex_val (snd p)))"

definition hex_pair :: "char \<times> char \<Rightarrow> bool" where
  "hex_pair p \<longleftrightarrow> is_hex (fst p) \<and> is_hex (snd p)"




definition digits :: "string \<Rightarrow> bool" where
  "digits ds \<longleftrightarrow> ds \<noteq> [] \<and> list_all is_digit ds"

text \<open>The fields of a serial line, as \<^verbatim>\<open>_parse\<close> cuts them.\<close>

definition tokens :: "bytes \<Rightarrow> bytes list" where
  "tokens line = split_max CHR '':'' 3 line"

definition missing_token :: "bytes \<Rightarrow> bool" where
  "missing_token line \<longleftrightarrow> length (filter (\<lambda>c. c = CHR '':'') line) < 3"

definition id_field :: "bytes \<Rightarrow> bytes" where
  "id_field line = drop 3 (tokens line ! 1)"

definition len_field :: "bytes \<Rightarrow> bytes" where
  "len_field line = drop 4 (tokens line ! 2)"

definition data_field :: "bytes \<Rightarrow> bytes" where
  "data_field line = tokens line ! 3"

definition hex_digits_of :: "bytes \<Rightarrow> bytes" where
  "hex_digits_of d = filter (\<lambda>c. c \<noteq> CHR '':'') d"

text \<open>
  A capture line: the time stamp \<open>ts\<close> in parentheses, the text \<open>mid\<close> up to the space before
  the identifier (it holds the interface name), the identifier \<open>hid\<close>, the data \<open>dat\<close> and
  whatever follows the data on the line.
\<close>

definition capture_line :: "string \<Rightarrow> string \<Rightarrow> string \<Rightarrow> string \<Rightarrow> string \<Rightarrow> string" where
  "capture_line ts mid hid dat rest =
     CHR ''('' # ts @ CHR '')'' # mid @ CHR '' '' # hid @ CHR ''#'' # dat @ rest"

definition frame_of :: "exn + frame \<Rightarrow> frame option" where
  "frame_of r = (case r of Inl e \<Rightarrow> None | Inr f \<Rightarrow> Some f)"


section \<open>The serial decoder: lemmas\<close>


lemma split_max_cut:
  "sep \<notin> set a \<Longrightarrow> split_max sep (Suc n) (a @ sep # r) = a # split_max sep n r"
proof -
  assume a: "sep \<notin> set a"
  have t: "takeWhile (\<lambda>c. c \<noteq> sep) (a @ sep # r) = a"
    using a by (induction a) auto
  have d: "dropWhile (\<lambda>c. c \<noteq> sep) (a @ sep # r) = sep # r"
    using a by (induction a) auto
  show ?thesis by (simp add: t d)
qed

lemma split_max_last: "sep \<notin> set a \<Longrightarrow> split_max sep n a = [a]"
  by (cases n) simp_all



lemma is_digit_facts:
  "is_digit c \<Longrightarrow> \<not> py_isspace c \<and> c \<noteq> CHR ''+'' \<and> c \<noteq> CHR ''-'' \<and> c \<noteq> CHR ''_''"
  by (auto simp: is_digit_def py_isspace_def)

lemma double_underscore_digits: "list_all is_digit ds \<Longrightarrow> \<not> double_underscore ds"
  by (induction ds rule: double_underscore.induct) (auto dest: is_digit_facts)

lemma int_bytes_digits:
  assumes "digits ds"
  shows "int_bytes ds = Inr (int (dec_val ds))"
proof -
  from assms obtain c r where ds: "ds = c # r" and c: "is_digit c" and all: "list_all is_digit ds"
    by (cases ds) (auto simp: digits_def)
  have sp: "dropWhile py_isspace ds = ds"
    using c ds is_digit_facts by simp
  have tw: "takeWhile (\<lambda>c. is_digit c \<or> c = CHR ''_'') ds = ds"
    using all by (simp add: list_all_iff)
  have dw: "dropWhile (\<lambda>c. is_digit c \<or> c = CHR ''_'') ds = []"
    using all by (simp add: list_all_iff)
  have fl: "filter is_digit ds = ds"
    using all by (simp add: list_all_iff)
  have lst: "last ds \<noteq> CHR ''_''"
    using all ds is_digit_facts[of "last ds"] last_in_set[of ds] by (auto simp: list_all_iff)
  have hdc: "hd ds = c" using ds by simp
  show ?thesis
    unfolding int_bytes_def Let_def sp
    using c is_digit_facts[OF c] double_underscore_digits[OF all] lst
    by (simp add: hdc tw dw fl ds[symmetric]) (simp add: ds)
qed



lemma unhex_pairs_concat:
  "list_all hex_pair ps \<Longrightarrow> unhex_pairs (concat (map pair_str ps)) = Some (map pair_byte ps)"
  by (induction ps) (auto simp: pair_str_def pair_byte_def hex_pair_def is_hex_def)

lemma length_concat_pairs: "length (concat (map pair_str ps)) = 2 * length ps"
  by (induction ps) (auto simp: pair_str_def)


lemma split_max_three:
  assumes "sep \<notin> set a" "sep \<notin> set b" "sep \<notin> set c"
  shows "split_max sep 3 (a @ sep # b @ sep # c @ sep # d) = [a, b, c, d]"
proof -
  have "split_max sep (Suc (Suc (Suc 0))) (a @ sep # b @ sep # c @ sep # d)
        = a # split_max sep (Suc (Suc 0)) (b @ sep # c @ sep # d)"
    using assms(1) by (rule split_max_cut)
  also have "split_max sep (Suc (Suc 0)) (b @ sep # c @ sep # d) = b # split_max sep (Suc 0) (c @ sep # d)"
    using assms(2) by (rule split_max_cut)
  also have "split_max sep (Suc 0) (c @ sep # d) = c # split_max sep 0 d"
    using assms(3) by (rule split_max_cut)
  finally show ?thesis by (simp add: numeral_3_eq_3)
qed




lemma length_split_max:
  "length (split_max sep n s) = min (Suc n) (Suc (length (filter (\<lambda>c. c = sep) s)))"
proof (induction n arbitrary: s)
  case 0
  then show ?case by simp
next
  case (Suc n)
  show ?case
  proof (cases "sep \<in> set s")
    case False
    then have "filter (\<lambda>c. c = sep) s = []" by (auto simp: filter_empty_conv)
    with False show ?thesis by simp
  next
    case True
    then obtain a r where s: "s = a @ sep # r" and a: "sep \<notin> set a"
      by (auto dest: split_list_first)
    have f: "filter (\<lambda>c. c = sep) a = []" using a by (auto simp: filter_empty_conv)
    have "split_max sep (Suc n) s = a # split_max sep n r"
      unfolding s using a by (rule split_max_cut)
    then show ?thesis by (simp add: Suc.IH s f)
  qed
qed

lemma missing_token_iff: "missing_token line \<longleftrightarrow> length (tokens line) < 4"
  by (auto simp: missing_token_def tokens_def length_split_max)

lemma getitem_Inl: "getitem xs i = Inl e \<Longrightarrow> e = IndexError \<and> length xs \<le> i"
  by (auto simp: getitem_def split: if_splits)

lemma getitem_Inr: "getitem xs i = Inr x \<longleftrightarrow> i < length xs \<and> x = xs ! i"
  by (auto simp: getitem_def)

lemma int_bytes_Inl: "int_bytes s = Inl e \<Longrightarrow> is_ValueError e"
  by (auto simp: int_bytes_def Let_def split: if_splits)

lemma unhexlify_Inl: "unhexlify s = Inl e \<Longrightarrow> is_ValueError e"
  by (auto simp: unhexlify_def split: if_splits option.splits)

lemma unhex_pairs_None: "unhex_pairs s = None \<longleftrightarrow> odd (length s) \<or> \<not> list_all is_hex s"
  by (induction s rule: unhex_pairs.induct) (auto simp: is_hex_def split: option.splits)

lemma unhexlify_fails: "(\<exists>e. unhexlify s = Inl e) \<longleftrightarrow> odd (length s) \<or> \<not> list_all is_hex s"
  using unhex_pairs_None[of s] by (auto simp: unhexlify_def split: option.splits)

lemma length_unhex_pairs: "unhex_pairs s = Some d \<Longrightarrow> 2 * length d = length s"
  by (induction s arbitrary: d rule: unhex_pairs.induct) (auto split: option.splits)

lemma parse_fields_Inl: "parse_fields fr = Inl e \<Longrightarrow> is_IndexError e \<or> is_ValueError e"
  unfolding parse_fields_def
  by (auto split: sum.splits dest: getitem_Inl int_bytes_Inl unhexlify_Inl)

lemma parse_fields_Inr:
  "parse_fields fr = Inr (i, k, d) \<longleftrightarrow>
     3 < length fr \<and> int_bytes (drop 3 (fr ! 1)) = Inr i \<and> int_bytes (drop 4 (fr ! 2)) = Inr k
     \<and> unhexlify (filter (\<lambda>c. c \<noteq> CHR '':'') (fr ! 3)) = Inr d"
  unfolding parse_fields_def
  by (auto simp: getitem_def split: sum.splits if_splits)

lemma SerialHandler_parse_cases:
  "(\<exists>i d. SerialHandler_parse line = Inr (i, d) \<and> parse_fields (tokens line) = Inr (i, int (length d), d))
   \<or> ((\<exists>e. parse_fields (tokens line) = Inl e)
       \<and> SerialHandler_parse line = Inl (InvalidFrame (''Invalid frame '' @ bytes_repr line)))
   \<or> ((\<exists>i k d. parse_fields (tokens line) = Inr (i, k, d) \<and> int (length d) \<noteq> k)
       \<and> SerialHandler_parse line
           = Inl (InvalidFrame (''Wrong frame length or invalid data: '' @ bytes_repr line)))"
proof (cases "parse_fields (tokens line)")
  case (Inl e)
  then show ?thesis
    using parse_fields_Inl[OF Inl] by (simp add: SerialHandler_parse_def tokens_def)
next
  case (Inr t)
  obtain i k d where t: "t = (i, k, d)" by (cases t) auto
  show ?thesis
    using Inr by (cases "int (length d) = k") (auto simp: SerialHandler_parse_def tokens_def t)
qed

section \<open>The serial decoder: the claims\<close>





text \<open>
  C4. A serial line on which a step of the decoding fails (fewer than four tokens, an
  identifier or a length that \<^verbatim>\<open>int\<close> refuses, data with an odd number of digits or with a
  character that is not a hexadecimal digit), or whose data have another length than the
  declared one: the decoder raises \<^verbatim>\<open>InvalidFrame\<close>, the message ends with the line as
  \<^verbatim>\<open>format\<close> prints it, and no frame is returned.
\<close>

theorem serial_parse_failure:
  assumes "missing_token line
     \<or> (\<exists>e. int_bytes (id_field line) = Inl e)
     \<or> (\<exists>e. int_bytes (len_field line) = Inl e)
     \<or> odd (length (hex_digits_of (data_field line)))
     \<or> \<not> list_all is_hex (hex_digits_of (data_field line))
     \<or> (\<exists>k d. int_bytes (len_field line) = Inr k
               \<and> unhexlify (hex_digits_of (data_field line)) = Inr d \<and> int (length d) \<noteq> k)"
  shows "(\<exists>m. SerialHandler_parse line = Inl (InvalidFrame (m @ bytes_repr line)))
         \<and> frame_of (SerialHandler_parse line) = None"
proof -
  have no: "\<not> (\<exists>i d. parse_fields (tokens line) = Inr (i, int (length d), d))"
  proof
    assume "\<exists>i d. parse_fields (tokens line) = Inr (i, int (length d), d)"
    then obtain i d where "parse_fields (tokens line) = Inr (i, int (length d), d)" by blast
    then have ok: "3 < length (tokens line)" "int_bytes (id_field line) = Inr i"
      "int_bytes (len_field line) = Inr (int (length d))"
      "unhexlify (hex_digits_of (data_field line)) = Inr d"
      by (simp_all add: parse_fields_Inr id_field_def len_field_def data_field_def hex_digits_of_def)
    from ok(4) have "\<not> (odd (length (hex_digits_of (data_field line)))
        \<or> \<not> list_all is_hex (hex_digits_of (data_field line)))"
      using unhexlify_fails[of "hex_digits_of (data_field line)"] by auto
    with assms ok show False by (auto simp: missing_token_iff)
  qed
  from SerialHandler_parse_cases[of line] no show ?thesis
    by (auto simp: frame_of_def)
qed

theorem serial_parse_failure_witness:
  "(\<exists>m. SerialHandler_parse ''FRAME:ID=1:LEN=2:AA''
          = Inl (InvalidFrame (m @ bytes_repr ''FRAME:ID=1:LEN=2:AA'')))
   \<and> frame_of (SerialHandler_parse ''FRAME:ID=1:LEN=2:AA'') = None"
proof -
  have tk: "tokens ''FRAME:ID=1:LEN=2:AA'' = [''FRAME'', ''ID=1'', ''LEN=2'', ''AA'']"
    using split_max_three[of "CHR '':''" "''FRAME''" "''ID=1''" "''LEN=2''" "''AA''"]
    by (simp add: tokens_def)
  have k: "int_bytes (len_field ''FRAME:ID=1:LEN=2:AA'') = Inr 2"
    using int_bytes_digits[of "''2''"]
    by (simp add: len_field_def tk digits_def is_digit_def dec_val_def digit_val_def)
  have d: "unhexlify (hex_digits_of (data_field ''FRAME:ID=1:LEN=2:AA'')) = Inr [CHR 0xAA]"
    by (simp add: data_field_def tk hex_digits_of_def unhexlify_def hex_val_def the_byte_def char_of_def bit_iff_odd)
  have "\<exists>k d. int_bytes (len_field ''FRAME:ID=1:LEN=2:AA'') = Inr k
      \<and> unhexlify (hex_digits_of (data_field ''FRAME:ID=1:LEN=2:AA'')) = Inr d \<and> int (length d) \<noteq> k"
    using k d by simp
  then show ?thesis
    using serial_parse_failure[of "''FRAME:ID=1:LEN=2:AA''"] by blast
qed

section \<open>The pattern: lemmas\<close>

lemma first_some_hit:
  "\<forall>a \<in> set as. f a = None \<Longrightarrow> f k = Some y \<Longrightarrow> first_some (map f (as @ k # bs)) = Some y"
  by (induction as) auto

lemma first_some_Some: "first_some xs = Some y \<Longrightarrow> Some y \<in> set xs"
  by (induction xs rule: first_some.induct) auto

lemma first_some_None: "first_some xs = None \<longleftrightarrow> (\<forall>x \<in> set xs. x = None)"
  by (induction xs rule: first_some.induct) auto

lemma rev_upt_split:
  assumes "mn \<le> k" "k \<le> n"
  shows "rev [mn ..< Suc n] = rev [Suc k ..< Suc n] @ k # rev [mn ..< k]"
proof -
  have "[mn ..< k + (Suc n - k)] = [mn ..< k] @ [k ..< k + (Suc n - k)]"
    using assms(1) by (rule upt_add_eq_append)
  then have "[mn ..< Suc n] = [mn ..< k] @ [k ..< Suc n]"
    using assms(2) by simp
  also have "[k ..< Suc n] = k # [Suc k ..< Suc n]"
    using assms by (simp add: upt_conv_Cons del: upt_Suc)
  finally show ?thesis by (simp del: upt_Suc)
qed

lemma takeWhile_prefix: "\<forall>c \<in> set a. P c \<Longrightarrow> takeWhile P (a @ r) = a @ takeWhile P r"
  by (induction a) auto

lemma rmatch_Lit_absent: "c \<notin> set s \<Longrightarrow> rmatch (Lit c # p) s = None"
  by (cases s) auto

lemma rmatch_Rep_hit:
  assumes n: "n = length (takeWhile cls s)"
    and k: "mn \<le> k" "k \<le> n"
    and hit: "rmatch p (drop k s) = Some g"
    and later: "\<forall>j. k < j \<and> j \<le> n \<longrightarrow> rmatch p (drop j s) = None"
  shows "rmatch (Rep cap cls mn # p) s = Some (if cap then take k s # g else g)"
proof -
  let ?f = "\<lambda>k. map_option (\<lambda>g. if cap then take k s # g else g) (rmatch p (drop k s))"
  have "first_some (map ?f (rev [Suc k ..< Suc n] @ k # rev [mn ..< k])) = Some (if cap then take k s # g else g)"
  proof (rule first_some_hit)
    show "\<forall>a \<in> set (rev [Suc k ..< Suc n]). ?f a = None"
      using later by auto
    show "?f k = Some (if cap then take k s # g else g)"
      using hit by simp
  qed
  then show ?thesis
    using rev_upt_split[OF k] by (simp add: n del: upt_Suc)
qed

lemma rmatch_Rep_all:
  assumes "\<forall>c \<in> set a. cls c" and "r = [] \<or> \<not> cls (hd r)" and "mn \<le> length a"
    and "rmatch p r = Some g"
  shows "rmatch (Rep cap cls mn # p) (a @ r) = Some (if cap then a # g else g)"
proof -
  have tw: "takeWhile cls (a @ r) = a"
    using assms(1,2) by (cases r) (auto simp: takeWhile_append2)
  have "rmatch (Rep cap cls mn # p) (a @ r) = Some (if cap then take (length a) (a @ r) # g else g)"
    by (rule rmatch_Rep_hit[where n = "length a"]) (use assms tw in auto)
  then show ?thesis by simp
qed

lemma is_HEX_facts: "is_HEX c \<Longrightarrow> c \<noteq> CHR '' '' \<and> c \<noteq> CHR ''#'' \<and> c \<noteq> newline \<and> is_hex c"
  by (auto simp: is_HEX_def newline_def is_hex_def hex_val_def)

lemma is_ts_facts: "is_ts c \<Longrightarrow> c \<noteq> CHR '')''"
  by (auto simp: is_ts_def is_digit_def)

lemma rmatch_tail:
  assumes hid: "hid \<noteq> []" "list_all is_HEX hid"
    and dat: "list_all is_HEX dat"
    and rest: "rest = [] \<or> \<not> is_HEX (hd rest)"
  shows "rmatch [Lit CHR '' '', Rep True is_HEX 1, Lit CHR ''#'', Rep True is_HEX 0]
           (CHR '' '' # hid @ CHR ''#'' # dat @ rest) = Some [hid, dat]"
proof -
  have 3: "rmatch [Rep True is_HEX 0] (dat @ rest) = Some [dat]"
    using rmatch_Rep_all[of dat is_HEX rest 0 "[]" "[]" True] dat rest
    by (simp add: list_all_iff)
  have 2: "rmatch [Lit CHR ''#'', Rep True is_HEX 0] (CHR ''#'' # dat @ rest) = Some [dat]"
    using 3 by simp
  have 1: "rmatch [Rep True is_HEX 1, Lit CHR ''#'', Rep True is_HEX 0] (hid @ CHR ''#'' # dat @ rest)
           = Some [hid, dat]"
    using rmatch_Rep_all[of hid is_HEX "CHR ''#'' # dat @ rest" 1
        "[Lit CHR ''#'', Rep True is_HEX 0]" "[dat]" True] hid 2
    by (cases hid) (auto simp: list_all_iff is_HEX_def)
  show ?thesis using 1 by simp
qed

lemma rmatch_capture_line:
  assumes ts: "ts \<noteq> []" "list_all is_ts ts"
    and mid: "newline \<notin> set mid"
    and hid: "hid \<noteq> []" "list_all is_HEX hid"
    and dat: "list_all is_HEX dat"
    and rest: "rest = [] \<or> \<not> is_HEX (hd rest)" "CHR '' '' \<notin> set rest"
  shows "rmatch MSG_RE (capture_line ts mid hid dat rest) = Some [ts, hid, dat]"
proof -
  let ?tailp = "[Lit CHR '' '', Rep True is_HEX 1, Lit CHR ''#'', Rep True is_HEX 0]"
  let ?after = "hid @ CHR ''#'' # dat @ rest"
  let ?s = "mid @ CHR '' '' # ?after"
  have nosp: "CHR '' '' \<notin> set ?after"
    using hid dat rest by (auto simp: list_all_iff dest: is_HEX_facts)
  have later: "rmatch ?tailp (drop j ?s) = None" if "length mid < j" for j
  proof -
    have "drop j ?s = drop (j - Suc (length mid)) ?after"
      using that by (simp add: drop_Cons')
    moreover have "set (drop (j - Suc (length mid)) ?after) \<subseteq> set ?after"
      by (rule set_drop_subset)
    ultimately have "CHR '' '' \<notin> set (drop j ?s)"
      using nosp by auto
    then show ?thesis by (rule rmatch_Lit_absent)
  qed
  have "takeWhile (\<lambda>c. c \<noteq> newline) ?s = mid @ takeWhile (\<lambda>c. c \<noteq> newline) (CHR '' '' # ?after)"
    using mid by (intro takeWhile_prefix) auto
  then have le: "length mid \<le> length (takeWhile (\<lambda>c. c \<noteq> newline) ?s)"
    by simp
  have dots: "rmatch (Rep False (\<lambda>c. c \<noteq> CHR 0x0A) 0 # ?tailp) ?s = Some [hid, dat]"
    using rmatch_Rep_hit[of "length (takeWhile (\<lambda>c. c \<noteq> CHR 0x0A) ?s)" "\<lambda>c. c \<noteq> CHR 0x0A" ?s 0
        "length mid" ?tailp "[hid, dat]" False]
      rmatch_tail[OF hid dat rest(1)] later le
    by (simp add: newline_def)
  have paren: "rmatch (Lit CHR '')'' # Rep False (\<lambda>c. c \<noteq> CHR 0x0A) 0 # ?tailp) (CHR '')'' # ?s)
               = Some [hid, dat]"
    using dots by simp
  have "rmatch (Rep True is_ts 1 # Lit CHR '')'' # Rep False (\<lambda>c. c \<noteq> CHR 0x0A) 0 # ?tailp)
          (ts @ CHR '')'' # ?s) = Some [ts, hid, dat]"
    using rmatch_Rep_all[of ts is_ts "CHR '')'' # ?s" 1 _ "[hid, dat]" True] ts paren
    by (cases ts) (auto simp: list_all_iff dest: is_ts_facts)
  then show ?thesis
    by (simp add: MSG_RE_def capture_line_def)
qed


lemma rmatch_Lit_Some: "rmatch (Lit c # p) s = Some g \<Longrightarrow> \<exists>r. s = c # r \<and> rmatch p r = Some g"
  by (cases s) (auto split: if_splits)

lemma rmatch_Rep_Some:
  assumes "rmatch (Rep cap cls mn # p) s = Some g"
  shows "\<exists>k g'. mn \<le> k \<and> k \<le> length (takeWhile cls s) \<and> rmatch p (drop k s) = Some g'
            \<and> g = (if cap then take k s # g' else g')"
proof -
  let ?f = "\<lambda>k. map_option (\<lambda>g. if cap then take k s # g else g) (rmatch p (drop k s))"
  from assms have "Some g \<in> set (map ?f (rev [mn ..< Suc (length (takeWhile cls s))]))"
    by (intro first_some_Some) simp
  then have "Some g \<in> ?f ` {mn ..< Suc (length (takeWhile cls s))}"
    by (simp only: set_map set_rev set_upt)
  then obtain k where k: "k \<in> {mn ..< Suc (length (takeWhile cls s))}" and fk: "?f k = Some g"
    by (metis (no_types, lifting) imageE)
  from fk obtain g' where "rmatch p (drop k s) = Some g'" "g = (if cap then take k s # g' else g')"
    by (cases "rmatch p (drop k s)") auto
  with k show ?thesis by auto
qed

lemma take_within_takeWhile:
  assumes "k \<le> length (takeWhile cls s)"
  shows "\<forall>c \<in> set (take k s). cls c"
proof -
  have "take k (takeWhile cls s @ dropWhile cls s) = take k (takeWhile cls s)"
    using assms by (simp del: takeWhile_dropWhile_id)
  then have "take k s = take k (takeWhile cls s)" by simp
  then have "set (take k s) \<subseteq> set (takeWhile cls s)" by (simp add: set_take_subset)
  then show ?thesis by (auto dest: set_takeWhileD)
qed

lemma rmatch_MSG_RE_groups:
  assumes "rmatch MSG_RE s = Some g"
  shows "\<exists>a b c. g = [a, b, c] \<and> a \<noteq> [] \<and> list_all is_ts a \<and> b \<noteq> [] \<and> list_all is_HEX b
            \<and> list_all is_HEX c"
proof -
  let ?p7 = "[Rep True is_HEX 0]"
  let ?p6 = "Lit CHR ''#'' # ?p7"
  let ?p5 = "Rep True is_HEX 1 # ?p6"
  let ?p4 = "Lit CHR '' '' # ?p5"
  let ?p3 = "Rep False (\<lambda>c. c \<noteq> CHR 0x0A) 0 # ?p4"
  let ?p2 = "Lit CHR '')'' # ?p3"
  let ?p1 = "Rep True is_ts 1 # ?p2"
  from assms have "rmatch (Lit CHR ''('' # ?p1) s = Some g"
    by (simp only: MSG_RE_def)
  then obtain s1 where "rmatch ?p1 s1 = Some g"
    by (blast dest: rmatch_Lit_Some)
  then obtain k1 g1 where k1: "1 \<le> k1" "k1 \<le> length (takeWhile is_ts s1)"
      and m2: "rmatch ?p2 (drop k1 s1) = Some g1" and g: "g = take k1 s1 # g1"
    by (auto dest!: rmatch_Rep_Some simp del: rmatch.simps)
  from m2 obtain s2 where "rmatch ?p3 s2 = Some g1"
    by (blast dest: rmatch_Lit_Some)
  then obtain k2 where "rmatch ?p4 (drop k2 s2) = Some g1"
    by (auto dest!: rmatch_Rep_Some simp del: rmatch.simps)
  then obtain s3 where "rmatch ?p5 s3 = Some g1"
    by (blast dest: rmatch_Lit_Some)
  then obtain k3 g3 where k3: "1 \<le> k3" "k3 \<le> length (takeWhile is_HEX s3)"
      and m6: "rmatch ?p6 (drop k3 s3) = Some g3" and g1: "g1 = take k3 s3 # g3"
    by (auto dest!: rmatch_Rep_Some simp del: rmatch.simps)
  from m6 obtain s4 where "rmatch ?p7 s4 = Some g3"
    by (blast dest: rmatch_Lit_Some)
  then obtain k4 g4 where k4: "k4 \<le> length (takeWhile is_HEX s4)"
      and m8: "rmatch [] (drop k4 s4) = Some g4" and g3: "g3 = take k4 s4 # g4"
    by (auto dest!: rmatch_Rep_Some simp del: rmatch.simps)
  from m8 have g4: "g4 = []" by simp
  have ne1: "take k1 s1 \<noteq> []" using k1 by (cases s1) auto
  have ne3: "take k3 s3 \<noteq> []" using k3 by (cases s3) auto
  show ?thesis
    using g g1 g3 g4 ne1 ne3 take_within_takeWhile[OF k1(2)] take_within_takeWhile[OF k3(2)]
      take_within_takeWhile[OF k4]
    by (simp add: list_all_iff)
qed

section \<open>The replay decoder: lemmas\<close>

lemma int_base16_HEX: "b \<noteq> [] \<Longrightarrow> list_all is_HEX b \<Longrightarrow> int_base16 b = Inr (int (hex_value b))"
  by (auto simp: int_base16_def list_all_iff dest: is_HEX_facts)

lemma fromhex_Inl: "fromhex s = Inl e \<Longrightarrow> is_ValueError e"
  by (auto simp: fromhex_def split: sum.splits)

lemma parse_from_candump_matched:
  assumes m: "rmatch MSG_RE (strip_with (\<lambda>c. c = newline) line0) = Some [ts, hid, dat]"
  shows "CandumpHandler_parse_from_candump h line0 =
     (case float_str ts of
        Inl e \<Rightarrow> (Inl e, h)
      | Inr t \<Rightarrow>
          if speed_scale h = 0 then (Inl ZeroDivisionError, h)
          else if (t - clock h) / speed_scale h < 0
            then (Inl (ValueError ''sleep length must be non-negative''), h)
          else (case fromhex dat of
                  Inl err \<Rightarrow>
                    (Inl (InvalidFrame (cant_decode (strip_with (\<lambda>c. c = newline) line0) (exn_str err))),
                     h\<lparr>slept := slept h @ [(t - clock h) / speed_scale h], clock := t\<rparr>)
                | Inr d \<Rightarrow>
                    (Inr (int (hex_value hid), d),
                     h\<lparr>slept := slept h @ [(t - clock h) / speed_scale h], clock := t\<rparr>)))"
proof -
  from rmatch_MSG_RE_groups[OF m] have hid: "hid \<noteq> []" "list_all is_HEX hid" by auto
  show ?thesis
    unfolding CandumpHandler_parse_from_candump_def Let_def m
    by (auto simp: int_base16_HEX[OF hid] float_div_def sleep_def
        split: sum.splits dest: fromhex_Inl)
qed

lemma parse_from_candump_unmatched:
  assumes "rmatch MSG_RE (strip_with (\<lambda>c. c = newline) line0) = None"
  shows "CandumpHandler_parse_from_candump h line0
         = (Inl (InvalidFrame (wrong_format (strip_with (\<lambda>c. c = newline) line0))), h)"
  using assms by (simp add: CandumpHandler_parse_from_candump_def)

lemma strip_with_id:
  assumes "s \<noteq> []" "\<not> P (hd s)" "\<not> P (last s)" "\<forall>x \<in> set r. P x"
  shows "strip_with P (s @ r) = s"
proof -
  have 1: "dropWhile P (s @ r) = s @ r"
    using assms(1,2) by (cases s) auto
  have 2: "dropWhile P (rev r @ rev s) = dropWhile P (rev s)"
    using assms(4) by (intro dropWhile_append2) auto
  have "\<not> P (hd (rev s))" using assms(3) by (simp add: hd_rev)
  then have 3: "dropWhile P (rev s) = rev s"
    using assms(1) by (cases "rev s") auto
  show ?thesis by (simp add: strip_with_def 1 2 3)
qed

lemma last_capture_line:
  "last (capture_line ts mid hid dat rest) \<in> set (CHR ''#'' # dat @ rest)"
proof -
  have "capture_line ts mid hid dat rest
        = (CHR ''('' # ts @ CHR '')'' # mid @ CHR '' '' # hid) @ (CHR ''#'' # dat @ rest)"
    by (simp add: capture_line_def)
  then have "last (capture_line ts mid hid dat rest) = last (CHR ''#'' # dat @ rest)"
    using last_appendR[of "CHR ''#'' # dat @ rest" "CHR ''('' # ts @ CHR '')'' # mid @ CHR '' '' # hid"]
    by simp
  moreover have "last (CHR ''#'' # dat @ rest) \<in> set (CHR ''#'' # dat @ rest)"
    by (rule last_in_set) simp
  ultimately show ?thesis by simp
qed

lemma strip_capture_line:
  assumes "list_all is_HEX dat" "newline \<notin> set rest"
  shows "strip_with (\<lambda>c. c = newline) (capture_line ts mid hid dat rest @ replicate j newline)
         = capture_line ts mid hid dat rest"
proof -
  let ?s = "capture_line ts mid hid dat rest"
  have ne: "?s \<noteq> []" by (simp add: capture_line_def)
  have h: "hd ?s \<noteq> newline"
    by (simp add: capture_line_def newline_def)
  have "\<forall>c \<in> set (CHR ''#'' # dat @ rest). c \<noteq> newline"
    using assms is_HEX_facts by (fastforce simp: list_all_iff newline_def)
  then have l: "last ?s \<noteq> newline"
    using last_capture_line[of ts mid hid dat rest] by blast
  have r: "\<forall>x \<in> set (replicate j newline). x = newline" by simp
  show ?thesis
    using strip_with_id[of ?s "\<lambda>c. c = newline" "replicate j newline"] ne h l r by blast
qed

lemma is_digit_not_dot: "is_digit c \<Longrightarrow> c \<noteq> CHR ''.''"
  by (auto simp: is_digit_def)

lemma float_str_Inr_decomp:
  assumes "float_str s = Inr t"
  shows "\<exists>ip fp. list_all is_digit ip \<and> list_all is_digit fp \<and> (ip \<noteq> [] \<or> fp \<noteq> [])
           \<and> (s = ip \<and> fp = [] \<or> s = ip @ CHR ''.'' # fp)
           \<and> t = real (dec_val (ip @ fp)) / 10 ^ length fp"
proof -
  define ip where "ip = takeWhile is_digit s"
  define r where "r = dropWhile is_digit s"
  define dot where "dot \<longleftrightarrow> r \<noteq> [] \<and> hd r = CHR ''.''"
  define fp where "fp = (if dot then takeWhile is_digit (tl r) else [])"
  define r' where "r' = (if dot then dropWhile is_digit (tl r) else r)"
  have s: "s = ip @ r" by (simp add: ip_def r_def)
  from assms have ok: "r' = []" "ip \<noteq> [] \<or> fp \<noteq> []"
    and t: "t = real (dec_val (ip @ fp)) / 10 ^ length fp"
    unfolding float_str_def Let_def ip_def[symmetric] r_def[symmetric] dot_def[symmetric]
      fp_def[symmetric] r'_def[symmetric]
    by (auto split: if_splits)
  have dip: "list_all is_digit ip" by (auto simp: ip_def list_all_iff dest: set_takeWhileD)
  have dfp: "list_all is_digit fp" by (auto simp: fp_def list_all_iff dest: set_takeWhileD)
  show ?thesis
  proof (cases dot)
    case True
    then have "r = CHR ''.'' # tl r" by (cases r) (auto simp: dot_def)
    moreover have "tl r = fp @ r'" using True by (simp add: fp_def r'_def)
    ultimately have "s = ip @ CHR ''.'' # fp" using s ok(1) by simp
    with dip dfp ok t show ?thesis by blast
  next
    case False
    then have "r = []" "fp = []" using ok(1) by (simp_all add: r'_def fp_def)
    with dip dfp ok t s show ?thesis by auto
  qed
qed

lemma float_str_Inl: "float_str s = Inl e \<Longrightarrow> is_ValueError e"
  by (auto simp: float_str_def Let_def split: if_splits)


lemma float_str_two_dots:
  assumes "1 < length (filter (\<lambda>c. c = CHR ''.'') s)"
  shows "\<exists>m. float_str s = Inl (ValueError m)"
proof (cases "float_str s")
  case (Inl e)
  then show ?thesis by (auto simp: float_str_def Let_def split: if_splits)
next
  case (Inr t)
  from float_str_Inr_decomp[OF Inr] obtain ip fp where
    d: "list_all is_digit ip" "list_all is_digit fp" "s = ip \<and> fp = [] \<or> s = ip @ CHR ''.'' # fp"
    by blast
  have "filter (\<lambda>c. c = CHR ''.'') ip = []" "filter (\<lambda>c. c = CHR ''.'') fp = []"
    using d(1,2) by (auto simp: filter_empty_conv list_all_iff dest: is_digit_not_dot)
  with d(3) have "length (filter (\<lambda>c. c = CHR ''.'') s) \<le> 1" by auto
  with assms show ?thesis by simp
qed

lemma is_hex_not_space: "is_hex c \<Longrightarrow> \<not> py_isspace c"
  by (auto simp: is_hex_def hex_val_def py_isspace_def Let_def split: if_splits)

lemma fromhex_at_hex:
  "list_all is_hex s \<Longrightarrow>
   fromhex_at i s = (if even (length s) then Inr (the (unhex_pairs s)) else Inl (i + length s))"
proof (induction s arbitrary: i rule: unhex_pairs.induct)
  case 1
  then show ?case by simp
next
  case (2 a)
  then show ?case by (simp add: is_hex_not_space)
next
  case (3 a b r)
  from "3.prems" obtain h l where hl: "hex_val a = Some h" "hex_val b = Some l"
    by (auto simp: is_hex_def)
  have r: "list_all is_hex r" using "3.prems" by simp
  have ns: "\<not> py_isspace a" using "3.prems" by (simp add: is_hex_not_space)
  have np: "even (length r) \<Longrightarrow> unhex_pairs r \<noteq> None"
    using r by (simp add: unhex_pairs_None)
  show ?case
    using "3.IH"[OF refl hl(1) hl(2) r, of "Suc (Suc i)"] hl ns np
    by (auto split: option.splits)
qed

lemma fromhex_pairs:
  assumes "list_all hex_pair ps"
  shows "fromhex (concat (map pair_str ps)) = Inr (map pair_byte ps)"
proof -
  have "list_all is_hex (concat (map pair_str ps))"
    using assms by (induction ps) (auto simp: hex_pair_def pair_str_def)
  then show ?thesis
    using unhex_pairs_concat[OF assms]
    by (simp add: fromhex_def fromhex_at_hex length_concat_pairs)
qed




lemma readline_empty: "fst (readline s) = [] \<longleftrightarrow> s = []"
  by (auto simp: readline_def split: list.splits)

lemma readline_line:
  "newline \<notin> set l \<Longrightarrow> readline (l @ newline # tx) = (l @ [newline], tx)"
proof -
  assume a: "newline \<notin> set l"
  have t: "takeWhile (\<lambda>c. c \<noteq> newline) (l @ newline # tx) = l"
    using a by (induction l) auto
  have d: "dropWhile (\<lambda>c. c \<noteq> newline) (l @ newline # tx) = newline # tx"
    using a by (induction l) auto
  show ?thesis by (simp add: readline_def t d)
qed

lemma speed_scale_init: "0 < speed_scale (CandumpHandler_init path scale)"
  by (simp add: CandumpHandler_init_def)

lemma parse_from_candump_not_EOFError:
  "fst (CandumpHandler_parse_from_candump h line0) \<noteq> Inl EOFError"
proof (cases "rmatch MSG_RE (strip_with (\<lambda>c. c = newline) line0)")
  case None
  then show ?thesis by (simp add: parse_from_candump_unmatched)
next
  case (Some g)
  with rmatch_MSG_RE_groups[OF Some] obtain a b c where
    "rmatch MSG_RE (strip_with (\<lambda>c. c = newline) line0) = Some [a, b, c]" by auto
  then show ?thesis
    by (auto simp: parse_from_candump_matched split: sum.splits dest: float_str_Inl)
qed

lemma parse_from_candump_speed_scale:
  "speed_scale (snd (CandumpHandler_parse_from_candump h line0)) = speed_scale h"
proof (cases "rmatch MSG_RE (strip_with (\<lambda>c. c = newline) line0)")
  case None
  then show ?thesis by (simp add: parse_from_candump_unmatched)
next
  case (Some g)
  with rmatch_MSG_RE_groups[OF Some] obtain a b c where
    "rmatch MSG_RE (strip_with (\<lambda>c. c = newline) line0) = Some [a, b, c]" by auto
  then show ?thesis
    by (auto simp: parse_from_candump_matched split: sum.splits)
qed

lemma rmatch_strip_capture_line:
  assumes "ts \<noteq> []" "list_all is_ts ts" "newline \<notin> set mid" "hid \<noteq> []" "list_all is_HEX hid"
    "list_all is_HEX dat" "rest = [] \<or> \<not> is_HEX (hd rest)" "CHR '' '' \<notin> set rest"
    "newline \<notin> set rest"
  shows "strip_with (\<lambda>c. c = newline) (capture_line ts mid hid dat rest @ replicate j newline)
           = capture_line ts mid hid dat rest
         \<and> rmatch MSG_RE (strip_with (\<lambda>c. c = newline)
              (capture_line ts mid hid dat rest @ replicate j newline)) = Some [ts, hid, dat]"
  using strip_capture_line[OF assms(6,9), of ts mid hid j] rmatch_capture_line[OF assms(1-8)]
  by simp

lemma parse_capture_line:
  assumes "ts \<noteq> []" "list_all is_ts ts" "newline \<notin> set mid" "hid \<noteq> []" "list_all is_HEX hid"
    "list_all is_HEX dat" "rest = [] \<or> \<not> is_HEX (hd rest)" "CHR '' '' \<notin> set rest"
    "newline \<notin> set rest"
  shows "CandumpHandler_parse_from_candump h (capture_line ts mid hid dat rest @ replicate j newline) =
     (case float_str ts of
        Inl e \<Rightarrow> (Inl e, h)
      | Inr t \<Rightarrow>
          if speed_scale h = 0 then (Inl ZeroDivisionError, h)
          else if (t - clock h) / speed_scale h < 0
            then (Inl (ValueError ''sleep length must be non-negative''), h)
          else (case fromhex dat of
                  Inl err \<Rightarrow>
                    (Inl (InvalidFrame (cant_decode (capture_line ts mid hid dat rest) (exn_str err))),
                     h\<lparr>slept := slept h @ [(t - clock h) / speed_scale h], clock := t\<rparr>)
                | Inr d \<Rightarrow>
                    (Inr (int (hex_value hid), d),
                     h\<lparr>slept := slept h @ [(t - clock h) / speed_scale h], clock := t\<rparr>)))"
proof -
  note r = rmatch_strip_capture_line[OF assms, of j]
  note e = conjunct1[OF r]
  show ?thesis
    using parse_from_candump_matched[OF conjunct2[OF r], of h] unfolding e .
qed



lemma float_str_examples:
  "float_str ''0.0'' = Inr 0" "float_str ''1.0'' = Inr 1" "float_str ''5.0'' = Inr 5"
  "float_str ''2.0'' = Inr 2" "float_str ''1.5'' = Inr (3 / 2)"
  by (simp_all add: float_str_def is_digit_def dec_val_def digit_val_def)

section \<open>The replay decoder: the claims\<close>







text \<open>
  C10. The pattern accepts a time stamp with more than one dot, and the conversion of the
  time stamp is outside every \<^verbatim>\<open>try\<close>: on such a line the call raises the \<^verbatim>\<open>ValueError\<close>
  of \<^verbatim>\<open>float\<close>, not \<^verbatim>\<open>InvalidFrame\<close>, and the handler is unchanged.
\<close>

theorem replay_timestamp_with_two_dots:
  assumes "list_all is_ts ts" and "1 < length (filter (\<lambda>c. c = CHR ''.'') ts)"
    and "newline \<notin> set mid"
    and "hid \<noteq> []" and "list_all is_HEX hid" and "list_all is_HEX dat"
  shows "rmatch MSG_RE (capture_line ts mid hid dat []) = Some [ts, hid, dat]
         \<and> (\<exists>m. CandumpHandler_parse_from_candump h (capture_line ts mid hid dat [])
                 = (Inl (ValueError m), h))
         \<and> \<not> is_InvalidFrame (projl (fst (CandumpHandler_parse_from_candump h
                 (capture_line ts mid hid dat []))))"
proof -
  have ne: "ts \<noteq> []" using assms(2) by auto
  from float_str_two_dots[OF assms(2)] obtain m where m: "float_str ts = Inl (ValueError m)" ..
  have p: "CandumpHandler_parse_from_candump h (capture_line ts mid hid dat []) = (Inl (ValueError m), h)"
    using parse_capture_line[OF ne assms(1,3,4,5,6), of "[]" h 0] m by simp
  have r: "rmatch MSG_RE (capture_line ts mid hid dat []) = Some [ts, hid, dat]"
    using rmatch_capture_line[OF ne assms(1,3,4,5,6), of "[]"] by simp
  show ?thesis using p r by simp
qed

theorem replay_timestamp_with_two_dots_witness:
  "rmatch MSG_RE ''(1.2.3) can0 123#AA'' = Some [''1.2.3'', ''123'', ''AA'']
   \<and> (\<exists>m. CandumpHandler_parse_from_candump (CandumpHandler_init ''capture.log'' 1) ''(1.2.3) can0 123#AA''
           = (Inl (ValueError m), CandumpHandler_init ''capture.log'' 1))
   \<and> \<not> is_InvalidFrame (projl (fst (CandumpHandler_parse_from_candump
           (CandumpHandler_init ''capture.log'' 1) ''(1.2.3) can0 123#AA'')))"
  using replay_timestamp_with_two_dots[of "''1.2.3''" "'' can0''" "''123''" "''AA''"
      "CandumpHandler_init ''capture.log'' 1"]
  by (simp add: capture_line_def is_ts_def is_digit_def is_HEX_def newline_def)

text \<open>
  C6. The replay clock is 0 after construction. Whenever the decoder returns a frame for a
  line, the line matched the pattern, its time stamp \<open>t\<close> was converted, and before
  returning the handler slept once more, for \<open>(t - clock) / speed_scale\<close> seconds, where
  \<open>clock\<close> is the replay clock before the call; the clock is \<open>t\<close> afterwards.
\<close>

theorem replay_pacing:
  "clock (CandumpHandler_init path scale) = 0
   \<and> (CandumpHandler_parse_from_candump h line0 = (Inr fr, h') \<longrightarrow>
        (\<exists>ts hid dat t.
            rmatch MSG_RE (strip_with (\<lambda>c. c = newline) line0) = Some [ts, hid, dat]
            \<and> float_str ts = Inr t
            \<and> slept h' = slept h @ [(t - clock h) / speed_scale h]
            \<and> clock h' = t))"
proof (intro conjI impI)
  show "clock (CandumpHandler_init path scale) = 0"
    by (simp add: CandumpHandler_init_def)
next
  assume ok: "CandumpHandler_parse_from_candump h line0 = (Inr fr, h')"
  show "\<exists>ts hid dat t.
            rmatch MSG_RE (strip_with (\<lambda>c. c = newline) line0) = Some [ts, hid, dat]
            \<and> float_str ts = Inr t
            \<and> slept h' = slept h @ [(t - clock h) / speed_scale h]
            \<and> clock h' = t"
  proof (cases "rmatch MSG_RE (strip_with (\<lambda>c. c = newline) line0)")
    case None
    with ok show ?thesis by (simp add: parse_from_candump_unmatched)
  next
    case (Some g)
    with rmatch_MSG_RE_groups[OF Some] obtain ts hid dat where
      m: "rmatch MSG_RE (strip_with (\<lambda>c. c = newline) line0) = Some [ts, hid, dat]" by auto
    from ok obtain t where t: "float_str ts = Inr t"
      unfolding parse_from_candump_matched[OF m] by (cases "float_str ts") auto
    from ok have "h' = h\<lparr>slept := slept h @ [(t - clock h) / speed_scale h], clock := t\<rparr>"
      unfolding parse_from_candump_matched[OF m] t
      by (auto split: if_splits sum.splits)
    then have "slept h' = slept h @ [(t - clock h) / speed_scale h]" "clock h' = t"
      by simp_all
    with m t show ?thesis by blast
  qed
qed

theorem replay_pacing_witness:
  "slept (snd (CandumpHandler_parse_from_candump
          (snd (CandumpHandler_parse_from_candump (CandumpHandler_init ''capture.log'' 2)
                  ''(0.0) can0 123#AA''))
          ''(1.0) can0 123#BB'')) = [0, 1 / 2]"
proof -
  let ?h0 = "CandumpHandler_init ''capture.log'' 2"
  let ?h1 = "?h0\<lparr>slept := [0], clock := 0\<rparr>"
  let ?h2 = "?h0\<lparr>slept := [0, 1 / 2], clock := 1\<rparr>"
  have 1: "CandumpHandler_parse_from_candump ?h0 ''(0.0) can0 123#AA'' = (Inr (291, [CHR 0xAA]), ?h1)"
    using parse_capture_line[of "''0.0''" "'' can0''" "''123''" "''AA''" "[]" ?h0 0]
      fromhex_pairs[of "[(CHR ''A'', CHR ''A'')]"]
    by (simp add: capture_line_def is_ts_def is_digit_def is_HEX_def newline_def float_str_examples
        CandumpHandler_init_def hex_value_def hex_val_def hex_pair_def is_hex_def pair_str_def
        pair_byte_def the_byte_def char_of_def bit_iff_odd)
  have 2: "CandumpHandler_parse_from_candump ?h1 ''(1.0) can0 123#BB'' = (Inr (291, [CHR 0xBB]), ?h2)"
    using parse_capture_line[of "''1.0''" "'' can0''" "''123''" "''BB''" "[]" ?h1 0]
      fromhex_pairs[of "[(CHR ''B'', CHR ''B'')]"]
    by (simp add: capture_line_def is_ts_def is_digit_def is_HEX_def newline_def float_str_examples
        CandumpHandler_init_def hex_value_def hex_val_def hex_pair_def is_hex_def pair_str_def
        pair_byte_def the_byte_def char_of_def bit_iff_odd)
  have m: "rmatch MSG_RE (strip_with (\<lambda>c. c = newline) ''(1.0) can0 123#BB'')
           = Some [''1.0'', ''123'', ''BB'']"
    using rmatch_strip_capture_line[of "''1.0''" "'' can0''" "''123''" "''BB''" "[]" 0]
    by (auto simp: capture_line_def is_ts_def is_digit_def is_HEX_def newline_def)
  from replay_pacing[of "''capture.log''" 2 ?h1 "''(1.0) can0 123#BB''" "(291, [CHR 0xBB])" ?h2] 2
  obtain ts hid dat t where
    g: "rmatch MSG_RE (strip_with (\<lambda>c. c = newline) ''(1.0) can0 123#BB'') = Some [ts, hid, dat]"
    and t: "float_str ts = Inr t"
    and s: "slept ?h2 = slept ?h1 @ [(t - clock ?h1) / speed_scale ?h1]"
    by blast
  from g m have "ts = ''1.0''" by simp
  with t have "t = 1" by (simp add: float_str_examples)
  with s have "slept ?h2 = [0, 1 / 2]" by (simp add: CandumpHandler_init_def)
  then show ?thesis by (simp add: 1 2)
qed

text \<open>
  C8. On an open file with nothing left to read, \<^verbatim>\<open>get_message\<close> raises \<^verbatim>\<open>EOFError\<close>, which
  is not \<^verbatim>\<open>InvalidFrame\<close>, and changes nothing in the handler; as long as there is text left
  to read, it never raises \<^verbatim>\<open>EOFError\<close>.
\<close>

theorem replay_end_of_stream:
  assumes "file_object h = Some f" and "\<not> closed f"
  shows "(pending f = [] \<longrightarrow>
            CandumpHandler_get_message h = (Inl EOFError, h) \<and> \<not> is_InvalidFrame EOFError)
         \<and> (pending f \<noteq> [] \<longrightarrow> fst (CandumpHandler_get_message h) \<noteq> Inl EOFError)"
proof (intro conjI impI)
  assume e: "pending f = []"
  have "f\<lparr>pending := []\<rparr> = f" using e by simp
  then have "h\<lparr>file_object := Some (f\<lparr>pending := []\<rparr>)\<rparr> = h" using assms(1) by simp
  then show "CandumpHandler_get_message h = (Inl EOFError, h)"
    using assms e by (simp add: CandumpHandler_get_message_def readline_def)
next
  show "\<not> is_InvalidFrame EOFError" by simp
next
  assume ne: "pending f \<noteq> []"
  obtain line rest where r: "readline (pending f) = (line, rest)" by (cases "readline (pending f)")
  have "line \<noteq> []" using readline_empty[of "pending f"] r ne by auto
  then show "fst (CandumpHandler_get_message h) \<noteq> Inl EOFError"
    using assms r parse_from_candump_not_EOFError
    by (simp add: CandumpHandler_get_message_def)
qed

theorem replay_end_of_stream_witness:
  "fst (CandumpHandler_get_message
          (snd (CandumpHandler_get_message
                  (CandumpHandler_open (''(0.0) can0 123#'' @ [newline])
                     (CandumpHandler_init ''capture.log'' 1)))))
   = Inl EOFError"
proof -
  let ?h0 = "CandumpHandler_init ''capture.log'' 1"
  let ?f1 = "\<lparr>closed = False, pending = []\<rparr>"
  let ?h1 = "?h0\<lparr>file_object := Some ?f1, slept := [0], clock := 0\<rparr>"
  have p: "CandumpHandler_parse_from_candump (?h0\<lparr>file_object := Some ?f1\<rparr>) (''(0.0) can0 123#'' @ [newline])
           = (Inr (291, []), ?h1)"
    using parse_capture_line[of "''0.0''" "'' can0''" "''123''" "[]" "[]" "?h0\<lparr>file_object := Some ?f1\<rparr>" 1]
    by (simp add: capture_line_def is_ts_def is_digit_def is_HEX_def newline_def float_str_examples
        CandumpHandler_init_def hex_value_def hex_val_def fromhex_def)
  have rl: "readline (''(0.0) can0 123#'' @ [newline]) = (''(0.0) can0 123#'' @ [newline], [])"
    using readline_line[of "''(0.0) can0 123#''" "[]"] by (simp add: newline_def)
  have 1: "CandumpHandler_get_message (CandumpHandler_open (''(0.0) can0 123#'' @ [newline]) ?h0)
           = (Inr (291, []), ?h1)"
    using p rl by (simp add: CandumpHandler_get_message_def CandumpHandler_open_def)
  have "CandumpHandler_get_message ?h1 = (Inl EOFError, ?h1)"
    using replay_end_of_stream[of ?h1 ?f1] by (simp add: CandumpHandler_init_def)
  with 1 show ?thesis by simp
qed

text \<open>
  \<^verbatim>\<open>get_message\<close> is the method that callers use to ask for the next frame. For the replay
  source it reads one line and hands it to \<^verbatim>\<open>_parse_from_candump\<close>; for the serial source it
  assembles one line and hands it, stripped, to \<^verbatim>\<open>_parse\<close>. The statements below are about
  the two decoders.
\<close>

lemma CandumpHandler_get_message_line:
  assumes "file_object h = Some f" "\<not> closed f" "newline \<notin> set l" "pending f = l @ newline # tx"
  shows "CandumpHandler_get_message h
         = CandumpHandler_parse_from_candump (h\<lparr>file_object := Some (f\<lparr>pending := tx\<rparr>)\<rparr>) (l @ [newline])"
  using assms readline_line[OF assms(3), of tx]
  by (simp add: CandumpHandler_get_message_def)

lemma SerialHandler_get_message_line:
  assumes "serial_device sh = Some dev" "SerialHandler_read_until_newline dev = Some (line, rest)"
  shows "SerialHandler_get_message sh = Some (SerialHandler_parse line, sh\<lparr>serial_device := Some rest\<rparr>)"
  using assms by (simp add: SerialHandler_get_message_def)






text \<open>
  C7, as the code has it. The assignment to \<open>clock\<close> stands right after the call of
  \<^verbatim>\<open>time.sleep\<close>, before the identifier and the data are converted. So when the call raises
  \<^verbatim>\<open>InvalidFrame\<close>, either the line did not match the pattern and the handler is unchanged,
  or the line matched, its time stamp \<open>t\<close> was converted, the pacing sleep was done, the data
  could not be decoded, and the clock is already \<open>t\<close>.
\<close>

theorem replay_clock_on_invalid_frame:
  assumes "CandumpHandler_parse_from_candump h line0 = (Inl (InvalidFrame m), h')"
  shows "(rmatch MSG_RE (strip_with (\<lambda>c. c = newline) line0) = None \<and> h' = h)
         \<or> (\<exists>ts hid dat t e.
               rmatch MSG_RE (strip_with (\<lambda>c. c = newline) line0) = Some [ts, hid, dat]
               \<and> float_str ts = Inr t
               \<and> fromhex dat = Inl e
               \<and> slept h' = slept h @ [(t - clock h) / speed_scale h]
               \<and> clock h' = t)"
proof (cases "rmatch MSG_RE (strip_with (\<lambda>c. c = newline) line0)")
  case None
  with assms show ?thesis by (simp add: parse_from_candump_unmatched)
next
  case (Some g)
  with rmatch_MSG_RE_groups[OF Some] obtain ts hid dat where
    g: "rmatch MSG_RE (strip_with (\<lambda>c. c = newline) line0) = Some [ts, hid, dat]" by auto
  note p = assms[unfolded parse_from_candump_matched[OF g]]
  from p obtain t where t: "float_str ts = Inr t"
    by (cases "float_str ts") (auto dest: float_str_Inl)
  from p t obtain e where e: "fromhex dat = Inl e"
    by (cases "fromhex dat") (auto split: if_splits)
  from p t e have "h' = h\<lparr>slept := slept h @ [(t - clock h) / speed_scale h], clock := t\<rparr>"
    by (auto split: if_splits)
  then have "slept h' = slept h @ [(t - clock h) / speed_scale h]" "clock h' = t"
    by simp_all
  with g t e show ?thesis by blast
qed

lemma fromhex_A: "fromhex ''A'' = Inl (ValueError ''non-hexadecimal number found in fromhex() arg at position 1'')"
  by (simp add: fromhex_def is_hex_def hex_val_def py_isspace_def char_of_def bit_iff_odd)

lemma parse_odd_example:
  "CandumpHandler_parse_from_candump (CandumpHandler_init ''capture.log'' 1) ''(5.0) can0 123#A''
   = (Inl (InvalidFrame (cant_decode ''(5.0) can0 123#A''
             ''non-hexadecimal number found in fromhex() arg at position 1'')),
      (CandumpHandler_init ''capture.log'' 1)\<lparr>slept := [5], clock := 5\<rparr>)"
  using parse_capture_line[of "''5.0''" "'' can0''" "''123''" "''A''" "[]"
      "CandumpHandler_init ''capture.log'' 1" 0]
  by (simp add: capture_line_def is_ts_def is_digit_def is_HEX_def newline_def float_str_examples
      CandumpHandler_init_def fromhex_A)

theorem replay_clock_on_invalid_frame_witness:
  "(rmatch MSG_RE (strip_with (\<lambda>c. c = newline) ''(5.0) can0 123#A'') = None
      \<and> (CandumpHandler_init ''capture.log'' 1)\<lparr>slept := [5], clock := 5\<rparr>
          = CandumpHandler_init ''capture.log'' 1)
   \<or> (\<exists>ts hid dat t e.
         rmatch MSG_RE (strip_with (\<lambda>c. c = newline) ''(5.0) can0 123#A'') = Some [ts, hid, dat]
         \<and> float_str ts = Inr t
         \<and> fromhex dat = Inl e
         \<and> slept ((CandumpHandler_init ''capture.log'' 1)\<lparr>slept := [5], clock := 5\<rparr>)
             = slept (CandumpHandler_init ''capture.log'' 1)
               @ [(t - clock (CandumpHandler_init ''capture.log'' 1))
                  / speed_scale (CandumpHandler_init ''capture.log'' 1)]
         \<and> clock ((CandumpHandler_init ''capture.log'' 1)\<lparr>slept := [5], clock := 5\<rparr>) = t)"
  using replay_clock_on_invalid_frame[OF parse_odd_example] .

text \<open>
  The claim C7 as the specification states it (the clock is unchanged whenever the call
  raises \<^verbatim>\<open>InvalidFrame\<close>) fails on a line with an odd number of data digits: the call
  raises \<^verbatim>\<open>InvalidFrame\<close> and the clock has moved from 0 to 5.
\<close>

theorem replay_clock_counterexample:
  "fst (CandumpHandler_parse_from_candump (CandumpHandler_init ''capture.log'' 1) ''(5.0) can0 123#A'')
     = Inl (InvalidFrame (cant_decode ''(5.0) can0 123#A''
              ''non-hexadecimal number found in fromhex() arg at position 1''))
   \<and> clock (CandumpHandler_init ''capture.log'' 1) = 0
   \<and> clock (snd (CandumpHandler_parse_from_candump (CandumpHandler_init ''capture.log'' 1)
                    ''(5.0) can0 123#A'')) = 5"
  by (simp add: parse_odd_example) (simp add: CandumpHandler_init_def)

section \<open>Further facts about the model\<close>

text \<open>
  For a line of printable ASCII characters without a single quote or a backslash, which is
  what the device sends, the text that \<^verbatim>\<open>format\<close> inserts into the messages of \<^verbatim>\<open>_parse\<close> is
  the line itself between \<^verbatim>\<open>b'\<close> and \<^verbatim>\<open>'\<close>.
\<close>

lemma repr_byte_plain:
  assumes "32 \<le> (of_char c :: nat)" "(of_char c :: nat) < 127" "c \<noteq> CHR 0x27" "c \<noteq> CHR 0x5C"
  shows "repr_byte (CHR 0x27) c = [c]"
proof -
  have 1: "c \<noteq> CHR 0x09"
  proof
    assume "c = CHR 0x09"
    then have "(of_char c :: nat) = 9" by simp
    with assms(1) show False by simp
  qed
  have 2: "c \<noteq> CHR 0x0A"
  proof
    assume "c = CHR 0x0A"
    then have "(of_char c :: nat) = 10" by simp
    with assms(1) show False by simp
  qed
  have 3: "c \<noteq> CHR 0x0D"
  proof
    assume "c = CHR 0x0D"
    then have "(of_char c :: nat) = 13" by simp
    with assms(1) show False by simp
  qed
  have 4: "\<not> ((of_char c :: nat) < 32 \<or> 127 \<le> (of_char c :: nat))"
    using assms(1,2) by simp
  show ?thesis
    unfolding repr_byte_def using assms(3,4) 1 2 3 4 by (simp only: if_False simp_thms)
qed

lemma bytes_repr_plain:
  assumes "\<forall>c \<in> set s. 32 \<le> (of_char c :: nat) \<and> (of_char c :: nat) < 127
             \<and> c \<noteq> CHR 0x27 \<and> c \<noteq> CHR 0x5C"
  shows "bytes_repr s = CHR ''b'' # CHR 0x27 # s @ [CHR 0x27]"
proof -
  have "CHR 0x27 \<notin> set s"
    using assms by blast
  then have q: "repr_quote s = CHR 0x27"
    unfolding repr_quote_def by (simp only: simp_thms if_False)
  have "concat (map (repr_byte (CHR 0x27)) s) = s"
    using assms by (induction s) (simp_all add: repr_byte_plain)
  then show ?thesis
    unfolding bytes_repr_def q by simp
qed

lemma serial_length_mismatch_message:
  "SerialHandler_parse ''FRAME:ID=1:LEN=2:AA''
   = Inl (InvalidFrame (''Wrong frame length or invalid data: b'' @ [CHR 0x27]
            @ ''FRAME:ID=1:LEN=2:AA'' @ [CHR 0x27]))"
proof -
  have tk: "split_max CHR '':'' 3 ''FRAME:ID=1:LEN=2:AA'' = [''FRAME'', ''ID=1'', ''LEN=2'', ''AA'']"
    using split_max_three[of "CHR '':''" "''FRAME''" "''ID=1''" "''LEN=2''" "''AA''"] by simp
  have pf: "parse_fields [''FRAME'', ''ID=1'', ''LEN=2'', ''AA''] = Inr (1, 2, [CHR 0xAA])"
    using int_bytes_digits[of "''1''"] int_bytes_digits[of "''2''"]
    by (simp add: parse_fields_def getitem_def digits_def is_digit_def dec_val_def digit_val_def
        unhexlify_def hex_val_def the_byte_def char_of_def bit_iff_odd)
  have r: "bytes_repr ''FRAME:ID=1:LEN=2:AA'' = CHR ''b'' # CHR 0x27 # ''FRAME:ID=1:LEN=2:AA'' @ [CHR 0x27]"
    by (rule bytes_repr_plain) simp
  show ?thesis
    by (simp add: SerialHandler_parse_def tk pf r)
qed

text \<open>
  The speed of a handler never changes after \<^verbatim>\<open>__init__\<close>, which makes it positive; and
  with a positive speed the replay clock never goes back, since a line with an earlier time
  stamp stops at \<^verbatim>\<open>time.sleep\<close>, before the assignment to the clock.
\<close>

lemma get_message_speed_scale:
  "speed_scale (snd (CandumpHandler_get_message h)) = speed_scale h"
  using parse_from_candump_speed_scale
  by (auto simp: CandumpHandler_get_message_def Let_def split: option.splits prod.splits)

lemma clock_never_goes_back:
  assumes "0 < speed_scale h"
  shows "clock h \<le> clock (snd (CandumpHandler_parse_from_candump h line0))"
proof (cases "rmatch MSG_RE (strip_with (\<lambda>c. c = newline) line0)")
  case None
  then show ?thesis by (simp add: parse_from_candump_unmatched)
next
  case (Some g)
  with rmatch_MSG_RE_groups[OF Some] obtain a b c where
    m: "rmatch MSG_RE (strip_with (\<lambda>c. c = newline) line0) = Some [a, b, c]" by auto
  have "clock h \<le> t" if "\<not> (t - clock h) / speed_scale h < 0" for t
    using that assms by (simp add: not_less zero_le_divide_iff)
  then show ?thesis
    using assms by (auto simp: parse_from_candump_matched[OF m] split: sum.splits)
qed

end
